theory Spec2Isabelle
  imports Main
begin

section \<open>The store: documents and the primitives the queue calls\<close>

text \<open>
  A timestamp is the number of milliseconds since the epoch. The source keeps timestamps as
  ISO-8601 strings (\<open>toISOString\<close>) and lets the store compare them as strings; for the
  years 0000 to 9999 that order is the order of the instants, which is what is modelled here.
  \<open>now()\<close> reads the clock; the clock reading is a parameter of every operation. An
  operation reads the clock more than once while it builds the query and the update of one
  call to the store; these readings are taken as one instant.
  \<open>nowPlusSecs(secs)\<close> is \<open>Date.now() + secs * 1000\<close>.
\<close>

type_synonym time = int

definition nowPlusSecs :: "time \<Rightarrow> int \<Rightarrow> time" where
  "nowPlusSecs now secs = now + secs * 1000"

text \<open>
  Identifiers are totally ordered (the claim sorts by \<open>_id\<close>); tokens are the hex strings
  of \<open>crypto.randomBytes(16)\<close>, passed in as the value the generator returned.
\<close>

type_synonym ident = nat
type_synonym token = string

text \<open>
  A stored document. \<open>tries\<close>, \<open>ack\<close> and \<open>deleted\<close> are fields a document may lack:
  \<open>None\<close> is the missing field. A query \<open>{deleted: null}\<close> matches the missing field,
  \<open>{deleted: {$exists: true}}\<close> the present one.
\<close>

record 'p doc =
  d_id :: ident
  d_visible :: time
  d_payload :: 'p
  d_tries :: "nat option"
  d_ack :: "token option"
  d_deleted :: "time option"

text \<open>The external representation that \<open>get\<close> hands to its caller.\<close>

record 'p msg =
  m_id :: ident
  m_ack :: token
  m_payload :: 'p
  m_tries :: nat

text \<open>
  The errors: the ones the queue raises, by the function that raises them, and the error
  of the store on a duplicate \<open>_id\<close>. The unique index on \<open>ack\<close> exists only once
  \<open>createIndexes\<close> has been called and is not part of the model: tokens are 16 random
  bytes.
\<close>

datatype error =
    NoClient
  | NoName
  | EmptyArrayPayload
  | PingUnidentifiedAck token
  | AckUnidentifiedAck token
  | CancelUnidentifiedId ident
  | DuplicateKey ident

text \<open>
  \<open>findOneAndUpdate(query, update, {returnOriginal: false})\<close> without a sort: the first
  document in the collection's order that matches is updated in place, and the updated
  document is returned; no match returns no value and changes nothing.
\<close>

fun findOneAndUpdate ::
  "('a \<Rightarrow> bool) \<Rightarrow> ('a \<Rightarrow> 'a) \<Rightarrow> 'a list \<Rightarrow> 'a option \<times> 'a list" where
  "findOneAndUpdate qry upd [] = (None, [])"
| "findOneAndUpdate qry upd (d # ds) =
     (if qry d then (Some (upd d), upd d # ds)
      else (case findOneAndUpdate qry upd ds of (r, ds') \<Rightarrow> (r, d # ds')))"

text \<open>With \<open>sort: {_id: 1}\<close> the matching document of least identifier is the one updated.\<close>

definition least_id :: "'p doc list \<Rightarrow> ident option" where
  "least_id ds =
     (case ds of [] \<Rightarrow> None
      | c # cs \<Rightarrow> Some (fold (\<lambda>d m. min (d_id d) m) cs (d_id c)))"

definition findOneAndUpdate_sorted ::
  "('p doc \<Rightarrow> bool) \<Rightarrow> ('p doc \<Rightarrow> 'p doc) \<Rightarrow> 'p doc list \<Rightarrow> 'p doc option \<times> 'p doc list" where
  "findOneAndUpdate_sorted qry upd col =
     (case least_id (filter qry col) of
        None \<Rightarrow> (None, col)
      | Some i \<Rightarrow> findOneAndUpdate (\<lambda>d. qry d \<and> d_id d = i) upd col)"

text \<open>
  \<open>insertMany\<close> is ordered: documents are inserted one after the other, and the store
  refuses a document whose \<open>_id\<close> is already present (the earlier ones stay inserted).
\<close>

fun insertMany :: "'p doc list \<Rightarrow> 'p doc list \<Rightarrow> (error + ident list) \<times> 'p doc list" where
  "insertMany [] col = (Inr [], col)"
| "insertMany (m # ms) col =
     (if d_id m \<in> d_id ` set col then (Inl (DuplicateKey (d_id m)), col)
      else (case insertMany ms (col @ [m]) of
              (Inl e, col') \<Rightarrow> (Inl e, col')
            | (Inr ids, col') \<Rightarrow> (Inr (d_id m # ids), col')))"

text \<open>
  \<open>updateOne({_id: id}, {$setOnInsert: msg}, {upsert: true})\<close>: a document with this
  identifier is matched and left as it is (\<open>$setOnInsert\<close> writes on insertion only);
  otherwise \<open>msg\<close> is inserted. The result handed to the callback has the fields
  \<open>matchedCount\<close>, \<open>modifiedCount\<close>, \<open>upsertedCount\<close> and \<open>upsertedId\<close>.
\<close>

record update_result =
  matchedCount :: nat
  modifiedCount :: nat
  upsertedCount :: nat
  upsertedId :: "ident option"

definition upsert_setOnInsert ::
  "ident \<Rightarrow> 'p doc \<Rightarrow> 'p doc list \<Rightarrow> update_result \<times> 'p doc list" where
  "upsert_setOnInsert i m col =
     (if i \<in> d_id ` set col
      then (\<lparr>matchedCount = 1, modifiedCount = 0, upsertedCount = 0, upsertedId = None\<rparr>, col)
      else (\<lparr>matchedCount = 0, modifiedCount = 0, upsertedCount = 1, upsertedId = Some i\<rparr>,
            col @ [m]))"

text \<open>
  The source reads \<open>result.nUpserted\<close>. The result of \<open>updateOne\<close> has no field of that
  name (it is a field of the result of a bulk write): the value read is undefined, whatever
  the store did.
\<close>

definition nUpserted :: "update_result \<Rightarrow> nat option" where
  "nUpserted result = None"

text \<open>\<open>count(query)\<close> and \<open>deleteMany(query)\<close>.\<close>

definition count_docs :: "('a \<Rightarrow> bool) \<Rightarrow> 'a list \<Rightarrow> nat" where
  "count_docs qry col = length (filter qry col)"

definition deleteMany :: "('a \<Rightarrow> bool) \<Rightarrow> 'a list \<Rightarrow> 'a list" where
  "deleteMany qry col = filter (\<lambda>d. \<not> qry d) col"

section \<open>The queue\<close>

text \<open>
  The options object of a call: \<open>opts.delay\<close> and \<open>opts.visibility\<close>, each possibly
  undefined. \<open>a || b\<close> on a number that may be undefined takes \<open>b\<close> when \<open>a\<close> is undefined
  or zero.
\<close>

record opts =
  o_delay :: "int option"
  o_visibility :: "int option"

definition no_opts :: opts where
  "no_opts = \<lparr>o_delay = None, o_visibility = None\<rparr>"

definition js_or :: "int option \<Rightarrow> int \<Rightarrow> int" where
  "js_or a b = (case a of None \<Rightarrow> b | Some v \<Rightarrow> if v = 0 then b else v)"

text \<open>
  The queue object: its configuration. The collection \<open>self.col\<close> is the state, passed to
  and returned by every operation. \<open>maxRetries\<close> is set only together with \<open>deadQueue\<close>.
  The constructor refuses a missing client and a missing (or empty) name.
\<close>

datatype queue = Queue (visibility: int) (delay: int) (deadQueue: "queue option") (maxRetries: "int option")

record queue_opts =
  qo_visibility :: "int option"
  qo_delay :: "int option"
  qo_deadQueue :: "queue option"
  qo_maxRetries :: "int option"

definition new_Queue :: "'c option \<Rightarrow> string \<Rightarrow> queue_opts \<Rightarrow> error + queue" where
  "new_Queue mongoDbClient name o' =
     (if mongoDbClient = None then Inl NoClient
      else if name = [] then Inl NoName
      else Inr (Queue (js_or (qo_visibility o') 30) (js_or (qo_delay o') 0) (qo_deadQueue o')
             (case qo_deadQueue o' of None \<Rightarrow> None
              | Some dq \<Rightarrow> Some (js_or (qo_maxRetries o') 5))))"

subsection \<open>add and addIfMissing\<close>

text \<open>
  \<open>var delay = opts.delay || self.delay; var visible = delay ? nowPlusSecs(delay) : now()\<close>
\<close>

definition insert_visible :: "queue \<Rightarrow> opts \<Rightarrow> time \<Rightarrow> time" where
  "insert_visible q opts now =
     (if js_or (o_delay opts) (delay q) \<noteq> 0
      then nowPlusSecs now (js_or (o_delay opts) (delay q)) else now)"

text \<open>
  The message a producer inserts has \<open>visible\<close> and \<open>payload\<close> (and \<open>_id\<close>); it has no
  \<open>tries\<close>, \<open>ack\<close> or \<open>deleted\<close> field.
\<close>

definition new_msg :: "ident \<Rightarrow> time \<Rightarrow> 'p \<Rightarrow> 'p doc" where
  "new_msg i v p =
     \<lparr>d_id = i, d_visible = v, d_payload = p, d_tries = None, d_ack = None, d_deleted = None\<rparr>"

definition addIfMissing ::
  "queue \<Rightarrow> ident \<Rightarrow> 'p \<Rightarrow> opts \<Rightarrow> time \<Rightarrow> 'p doc list \<Rightarrow> ident option \<times> 'p doc list" where
  "addIfMissing q i p opts now col =
     (case upsert_setOnInsert i (new_msg i (insert_visible q opts now) p) col of
        (result, col') \<Rightarrow> (if nUpserted result = Some 1 then Some i else None, col'))"

text \<open>
  The payload of \<open>add\<close> is one value or an array of values (\<open>payload instanceof Array\<close>).
  The messages carry no \<open>_id\<close>; the identifier of the \<open>k\<close>-th message of the call is
  generated on insertion and is \<open>oid k\<close> here. A single payload returns
  \<open>results.ops[0]._id\<close>, an array \<open>results.insertedIds\<close>.
\<close>

datatype 'p payload_arg = One 'p | Many "'p list"

datatype add_result = InsertedId ident | InsertedIds "ident list"

definition add ::
  "queue \<Rightarrow> 'p payload_arg \<Rightarrow> opts \<Rightarrow> time \<Rightarrow> (nat \<Rightarrow> ident) \<Rightarrow> 'p doc list
     \<Rightarrow> (error + add_result) \<times> 'p doc list" where
  "add q payload opts now oid col =
     (case payload of
        Many ps \<Rightarrow>
          (if ps = [] then (Inl EmptyArrayPayload, col)
           else (case insertMany
                        (map (\<lambda>(k, p). new_msg (oid k) (insert_visible q opts now) p) (enumerate 0 ps))
                        col of
                   (Inl e, col') \<Rightarrow> (Inl e, col')
                 | (Inr ids, col') \<Rightarrow> (Inr (InsertedIds ids), col')))
      | One p \<Rightarrow>
          (case insertMany [new_msg (oid 0) (insert_visible q opts now) p] col of
             (Inl e, col') \<Rightarrow> (Inl e, col')
           | (Inr ids, col') \<Rightarrow> (Inr (InsertedId (oid 0)), col')))"

subsection \<open>ping, ack and cancel\<close>

definition leased :: "token \<Rightarrow> time \<Rightarrow> 'p doc \<Rightarrow> bool" where
  "leased a now d = (d_ack d = Some a \<and> now < d_visible d \<and> d_deleted d = None)"

definition ping ::
  "queue \<Rightarrow> token \<Rightarrow> opts \<Rightarrow> time \<Rightarrow> 'p doc list \<Rightarrow> (error + ident) \<times> 'p doc list" where
  "ping q a opts now col =
     (case findOneAndUpdate (leased a now)
             (\<lambda>d. d\<lparr>d_visible := nowPlusSecs now (js_or (o_visibility opts) (visibility q))\<rparr>) col of
        (None, col') \<Rightarrow> (Inl (PingUnidentifiedAck a), col')
      | (Some d, col') \<Rightarrow> (Inr (d_id d), col'))"

definition ack :: "token \<Rightarrow> time \<Rightarrow> 'p doc list \<Rightarrow> (error + ident) \<times> 'p doc list" where
  "ack a now col =
     (case findOneAndUpdate (leased a now) (\<lambda>d. d\<lparr>d_deleted := Some now\<rparr>) col of
        (None, col') \<Rightarrow> (Inl (AckUnidentifiedAck a), col')
      | (Some d, col') \<Rightarrow> (Inr (d_id d), col'))"

definition claimable :: "time \<Rightarrow> 'p doc \<Rightarrow> bool" where
  "claimable now d = (d_deleted d = None \<and> d_visible d \<le> now)"

definition cancel :: "ident \<Rightarrow> time \<Rightarrow> 'p doc list \<Rightarrow> (error + unit) \<times> 'p doc list" where
  "cancel i now col =
     (case findOneAndUpdate (\<lambda>d. d_id d = i \<and> claimable now d) (\<lambda>d. d\<lparr>d_deleted := Some now\<rparr>) col of
        (None, col') \<Rightarrow> (Inl (CancelUnidentifiedId i), col')
      | (Some d, col') \<Rightarrow> (Inr (), col'))"

subsection \<open>Counting and cleaning\<close>

definition clean :: "'p doc list \<Rightarrow> 'p doc list" where
  "clean col = deleteMany (\<lambda>d. d_deleted d \<noteq> None) col"

definition totalQ :: "'p doc list \<Rightarrow> nat" where
  "totalQ col = length col"

definition sizeQ :: "time \<Rightarrow> 'p doc list \<Rightarrow> nat" where
  "sizeQ now col = count_docs (claimable now) col"

definition inFlight :: "time \<Rightarrow> 'p doc list \<Rightarrow> nat" where
  "inFlight now col =
     count_docs (\<lambda>d. d_ack d \<noteq> None \<and> now < d_visible d \<and> d_deleted d = None) col"

definition doneQ :: "'p doc list \<Rightarrow> nat" where
  "doneQ col = count_docs (\<lambda>d. d_deleted d \<noteq> None) col"

subsection \<open>get\<close>

text \<open>
  The update of a claim: \<open>$inc: {tries: 1}\<close> (a missing field counts as 0),
  \<open>$set: {ack: id(), visible: nowPlusSecs(visibility)}\<close>.
\<close>

definition tries_of :: "'p doc \<Rightarrow> nat" where
  "tries_of d = (case d_tries d of None \<Rightarrow> 0 | Some n \<Rightarrow> n)"

definition claim_update :: "token \<Rightarrow> time \<Rightarrow> 'p doc \<Rightarrow> 'p doc" where
  "claim_update tok vis d =
     d\<lparr>d_tries := Some (tries_of d + 1), d_ack := Some tok, d_visible := vis\<rparr>"

text \<open>
  The external representation of the document the store returned. That document is the
  updated one (\<open>returnOriginal: false\<close>), in which \<open>ack\<close> and \<open>tries\<close> are present; the
  values given here to a missing field are never read by \<open>get\<close>.
\<close>

definition external :: "'p doc \<Rightarrow> 'p msg" where
  "external d =
     \<lparr>m_id = d_id d,
      m_ack = (case d_ack d of None \<Rightarrow> [] | Some a \<Rightarrow> a),
      m_payload = d_payload d,
      m_tries = tries_of d\<rparr>"

text \<open>\<open>msg.tries > self.maxRetries\<close>; the comparison with an undefined ceiling is false.\<close>

definition exceeds :: "nat \<Rightarrow> int option \<Rightarrow> bool" where
  "exceeds n mr = (case mr of None \<Rightarrow> False | Some c \<Rightarrow> c < int n)"

text \<open>
  One attempt of \<open>get\<close> makes up to three calls to the store, each later than the one
  before: the claim, the insertion into the dead-letter queue and the acknowledgement.
  An attempt reads the clock at each of them and generates one token; the dead-letter
  store generates one identifier.
\<close>

record attempt =
  at_get :: time
  new_ack :: token
  at_dead :: time
  dead_oid :: ident
  at_ack :: time

definition undeleted :: "'p doc list \<Rightarrow> nat" where
  "undeleted col = count_docs (\<lambda>d. d_deleted d = None) col"

text \<open>
  \<open>get\<close> on the collection \<open>col\<close> of the queue and the collection \<open>dead\<close> of its
  dead-letter queue (another collection). \<open>env k\<close> is what the \<open>k\<close>-th attempt reads from
  the clock and the generators. The call that follows a redirection is \<open>self.get(callback)\<close>:
  it has no options.
\<close>

function get ::
  "queue \<Rightarrow> opts \<Rightarrow> (nat \<Rightarrow> attempt) \<Rightarrow> 'p doc list \<Rightarrow> 'p msg doc list
     \<Rightarrow> (error + 'p msg option) \<times> 'p doc list \<times> 'p msg doc list" where
  "get q opts env col dead =
     (case findOneAndUpdate_sorted (claimable (at_get (env 0)))
             (claim_update (new_ack (env 0))
                (nowPlusSecs (at_get (env 0)) (js_or (o_visibility opts) (visibility q)))) col of
        (None, col1) \<Rightarrow> (Inr None, col1, dead)
      | (Some d, col1) \<Rightarrow>
          (case deadQueue q of
             None \<Rightarrow> (Inr (Some (external d)), col1, dead)
           | Some dq \<Rightarrow>
               (if exceeds (m_tries (external d)) (maxRetries q) then
                  (case add dq (One (external d)) no_opts (at_dead (env 0))
                          (\<lambda>k. dead_oid (env 0)) dead of
                     (Inl e, dead1) \<Rightarrow> (Inl e, col1, dead1)
                   | (Inr r, dead1) \<Rightarrow>
                       (case ack (m_ack (external d)) (at_ack (env 0)) col1 of
                          (Inl e, col2) \<Rightarrow> (Inl e, col2, dead1)
                        | (Inr i, col2) \<Rightarrow> get q no_opts (\<lambda>k. env (Suc k)) col2 dead1))
                else (Inr (Some (external d)), col1, dead))))"
  by pat_completeness auto

text \<open>The claim that an attempt of \<open>get\<close> makes.\<close>

abbreviation first_claim ::
  "queue \<Rightarrow> opts \<Rightarrow> attempt \<Rightarrow> 'p doc list \<Rightarrow> 'p doc option \<times> 'p doc list" where
  "first_claim q opts a col \<equiv>
     findOneAndUpdate_sorted (claimable (at_get a))
       (claim_update (new_ack a) (nowPlusSecs (at_get a) (js_or (o_visibility opts) (visibility q)))) col"

text \<open>
  What no claim and no acknowledgement changes: the number of documents, their identifiers
  and payloads, and the documents that are finalized.
\<close>

definition frame :: "'p doc list \<Rightarrow> 'p doc list \<Rightarrow> bool" where
  "frame col col' \<longleftrightarrow>
     length col' = length col \<and>
     (\<forall>i<length col. d_id (col' ! i) = d_id (col ! i) \<and> d_payload (col' ! i) = d_payload (col ! i) \<and>
        (d_deleted (col ! i) \<noteq> None \<longrightarrow> col' ! i = col ! i))"

text \<open>
  The collections a queue can be in: empty at first, then changed by the operations, in any
  order, at any times, with any options and dead-letter collection.
\<close>

inductive reachable :: "'p doc list \<Rightarrow> bool" where
  r_empty: "reachable []"
| r_add: "reachable col \<Longrightarrow> reachable (snd (add q payload opts now oid col))"
| r_addIfMissing: "reachable col \<Longrightarrow> reachable (snd (addIfMissing q x p opts now col))"
| r_get: "reachable col \<Longrightarrow> reachable (fst (snd (get q opts env col dead)))"
| r_ping: "reachable col \<Longrightarrow> reachable (snd (ping q a opts now col))"
| r_ack: "reachable col \<Longrightarrow> reachable (snd (ack a now col))"
| r_cancel: "reachable col \<Longrightarrow> reachable (snd (cancel x now col))"
| r_clean: "reachable col \<Longrightarrow> reachable (clean col)"

section \<open>Facts about the store primitives\<close>

lemma foau_None:
  "findOneAndUpdate P u xs = (None, ys) \<Longrightarrow> ys = xs \<and> (\<forall>x\<in>set xs. \<not> P x)"
  by (induction xs arbitrary: ys) (auto split: if_splits prod.splits)

lemma foau_Some:
  "findOneAndUpdate P u xs = (Some d, ys) \<Longrightarrow>
     \<exists>i<length xs. P (xs ! i) \<and> (\<forall>j<i. \<not> P (xs ! j)) \<and> d = u (xs ! i) \<and> ys = xs[i := u (xs ! i)]"
proof (induction xs arbitrary: ys)
  case Nil
  then show ?case by simp
next
  case (Cons x xs)
  show ?case
  proof (cases "P x")
    case True
    with Cons.prems have "d = u x" "ys = u x # xs" by auto
    with True show ?thesis by (intro exI[of _ 0]) simp
  next
    case False
    with Cons.prems obtain ys' where r: "findOneAndUpdate P u xs = (Some d, ys')" and ys: "ys = x # ys'"
      by (auto split: prod.splits)
    from Cons.IH[OF r] obtain i where i: "i < length xs" "P (xs ! i)" "\<forall>j<i. \<not> P (xs ! j)"
      "d = u (xs ! i)" "ys' = xs[i := u (xs ! i)]" by blast
    have "\<forall>j<Suc i. \<not> P ((x # xs) ! j)"
      using False i(3) by (auto simp: nth_Cons split: nat.splits)
    with i ys show ?thesis by (intro exI[of _ "Suc i"]) simp
  qed
qed

lemma foau_fst_None:
  "fst (findOneAndUpdate P u xs) = None \<longleftrightarrow> (\<forall>x\<in>set xs. \<not> P x)"
  by (induction xs) (auto split: prod.splits)

lemma fold_min_id:
  "fold (\<lambda>d m. min (d_id d) m) cs a \<in> insert a (d_id ` set cs) \<and>
   fold (\<lambda>d m. min (d_id d) m) cs a \<le> a \<and>
   (\<forall>e\<in>set cs. fold (\<lambda>d m. min (d_id d) m) cs a \<le> d_id e)"
proof (induction cs arbitrary: a)
  case Nil
  show ?case by simp
next
  case (Cons c cs)
  from Cons.IH[of "min (d_id c) a"] show ?case
    by (auto simp: min_def split: if_splits)
qed

lemma least_id_None: "least_id ds = None \<longleftrightarrow> ds = []"
  by (simp add: least_id_def split: list.splits)

lemma least_id_Some:
  assumes "least_id ds = Some m"
  shows "m \<in> d_id ` set ds" and "\<forall>e\<in>set ds. m \<le> d_id e"
proof -
  from assms obtain c cs where ds: "ds = c # cs"
    and m: "m = fold (\<lambda>d m. min (d_id d) m) cs (d_id c)"
    by (auto simp: least_id_def split: list.splits)
  from fold_min_id[of cs "d_id c"] show "m \<in> d_id ` set ds" and "\<forall>e\<in>set ds. m \<le> d_id e"
    unfolding ds m by auto
qed

lemma sorted_None:
  "findOneAndUpdate_sorted P u col = (None, col') \<longleftrightarrow> col' = col \<and> (\<forall>x\<in>set col. \<not> P x)"
proof (cases "least_id (filter P col)")
  case None
  then have "filter P col = []" by (simp add: least_id_None)
  then have "\<forall>x\<in>set col. \<not> P x" by (simp add: filter_empty_conv)
  with None show ?thesis by (auto simp: findOneAndUpdate_sorted_def)
next
  case (Some m)
  from least_id_Some(1)[OF Some] obtain x where x: "x \<in> set col" "P x" "d_id x = m" by auto
  then have "fst (findOneAndUpdate (\<lambda>d. P d \<and> d_id d = m) u col) \<noteq> None"
    by (auto simp: foau_fst_None)
  with Some x show ?thesis by (auto simp: findOneAndUpdate_sorted_def)
qed

lemma sorted_Some:
  assumes "findOneAndUpdate_sorted P u col = (Some d, col')"
  shows "\<exists>i<length col. P (col ! i) \<and> (\<forall>e\<in>set col. P e \<longrightarrow> d_id (col ! i) \<le> d_id e) \<and>
           d = u (col ! i) \<and> col' = col[i := u (col ! i)]"
proof (cases "least_id (filter P col)")
  case None
  with assms show ?thesis by (simp add: findOneAndUpdate_sorted_def)
next
  case (Some m)
  with assms have "findOneAndUpdate (\<lambda>d. P d \<and> d_id d = m) u col = (Some d, col')"
    by (simp add: findOneAndUpdate_sorted_def)
  from foau_Some[OF this] obtain i where i: "i < length col" "P (col ! i)" "d_id (col ! i) = m"
    "d = u (col ! i)" "col' = col[i := u (col ! i)]" by blast
  from least_id_Some(2)[OF Some] i(3) have "\<forall>e\<in>set col. P e \<longrightarrow> d_id (col ! i) \<le> d_id e"
    by simp
  with i show ?thesis by blast
qed

lemma count_docs_update_same:
  assumes "i < length xs" "P y = P (xs ! i)"
  shows "count_docs P (xs[i := y]) = count_docs P xs"
proof -
  have "xs = take i xs @ xs ! i # drop (Suc i) xs"
    using assms(1) by (simp add: id_take_nth_drop)
  then have "count_docs P xs = count_docs P (take i xs @ xs ! i # drop (Suc i) xs)" by simp
  also have "\<dots> = count_docs P (take i xs @ y # drop (Suc i) xs)"
    using assms(2) by (simp add: count_docs_def)
  also have "take i xs @ y # drop (Suc i) xs = xs[i := y]"
    using assms(1) by (simp add: upd_conv_take_nth_drop)
  finally show ?thesis by simp
qed

lemma count_docs_update_less:
  assumes "i < length xs" "P (xs ! i)" "\<not> P y"
  shows "count_docs P (xs[i := y]) < count_docs P xs"
proof -
  have "xs = take i xs @ xs ! i # drop (Suc i) xs"
    using assms(1) by (simp add: id_take_nth_drop)
  then have "count_docs P xs = count_docs P (take i xs @ xs ! i # drop (Suc i) xs)" by simp
  also have "\<dots> = Suc (count_docs P (take i xs @ y # drop (Suc i) xs))"
    using assms(2,3) by (simp add: count_docs_def)
  also have "take i xs @ y # drop (Suc i) xs = xs[i := y]"
    using assms(1) by (simp add: upd_conv_take_nth_drop)
  finally show ?thesis by simp
qed

lemma ack_Inr:
  assumes "ack a now col = (Inr r, col')"
  shows "\<exists>i<length col. leased a now (col ! i) \<and> r = d_id (col ! i) \<and>
           col' = col[i := (col ! i)\<lparr>d_deleted := Some now\<rparr>]"
proof -
  from assms obtain d where
    "findOneAndUpdate (leased a now) (\<lambda>d. d\<lparr>d_deleted := Some now\<rparr>) col = (Some d, col')"
    and r: "r = d_id d"
    by (auto simp: ack_def split: prod.splits option.splits)
  from foau_Some[OF this(1)] r show ?thesis by auto
qed

lemma ack_Inl:
  assumes "ack a now col = (Inl e, col')"
  shows "col' = col \<and> e = AckUnidentifiedAck a \<and> (\<forall>d\<in>set col. \<not> leased a now d)"
proof -
  from assms have "findOneAndUpdate (leased a now) (\<lambda>d. d\<lparr>d_deleted := Some now\<rparr>) col = (None, col')"
    and "e = AckUnidentifiedAck a"
    by (auto simp: ack_def split: prod.splits option.splits)
  with foau_None[OF this(1)] show ?thesis by simp
qed

lemma undeleted_ack:
  assumes "ack a now col = (Inr r, col')"
  shows "undeleted col' < undeleted col"
proof -
  from ack_Inr[OF assms] obtain i where i: "i < length col" "leased a now (col ! i)"
    "col' = col[i := (col ! i)\<lparr>d_deleted := Some now\<rparr>]" by blast
  then show ?thesis
    unfolding undeleted_def by (simp add: count_docs_update_less leased_def)
qed

lemma undeleted_claim:
  assumes "findOneAndUpdate_sorted P (claim_update tok vis) col = (Some d, col')"
  shows "undeleted col' = undeleted col"
proof -
  from sorted_Some[OF assms] obtain i where "i < length col"
    "col' = col[i := claim_update tok vis (col ! i)]" by blast
  then show ?thesis
    unfolding undeleted_def by (simp add: count_docs_update_same claim_update_def)
qed

lemma get_decreases:
  assumes "(Some d, y) = findOneAndUpdate_sorted P (claim_update tok vis) col"
    and "(Inr r, yb) = ack a now y"
  shows "undeleted yb < undeleted col"
  using undeleted_claim[OF assms(1)[symmetric]] undeleted_ack[OF assms(2)[symmetric]] by simp

text \<open>
  Every redirection acknowledges the message it claimed, so the number of messages that
  are not finalized decreases from one attempt to the next: \<open>get\<close> returns.
\<close>

termination get
  apply (relation "measure (\<lambda>(q, opts, env, col, dead). undeleted col)")
   apply simp
  apply simp
  apply (blast intro: get_decreases)
  done

declare get.simps [simp del]

lemma external_claim_update:
  "external (claim_update tok vis d) =
     \<lparr>m_id = d_id d, m_ack = tok, m_payload = d_payload d, m_tries = Suc (tries_of d)\<rparr>"
  by (simp add: external_def claim_update_def tries_of_def)

lemma foau_cases:
  "(\<forall>x\<in>set xs. \<not> P x) \<and> findOneAndUpdate P u xs = (None, xs) \<or>
   (\<exists>i<length xs. P (xs ! i) \<and> (\<forall>j<i. \<not> P (xs ! j)) \<and>
        findOneAndUpdate P u xs = (Some (u (xs ! i)), xs[i := u (xs ! i)]))"
proof (cases "findOneAndUpdate P u xs")
  case (Pair r ys)
  show ?thesis
  proof (cases r)
    case None
    with Pair foau_None[of P u xs ys] show ?thesis by simp
  next
    case (Some d)
    with Pair foau_Some[of P u xs d ys] show ?thesis by auto
  qed
qed

lemma count_docs_disjoint3:
  assumes "\<And>x. \<not> (P x \<and> Q x)" "\<And>x. \<not> (P x \<and> R x)" "\<And>x. \<not> (Q x \<and> R x)"
  shows "count_docs P xs + count_docs Q xs + count_docs R xs \<le> length xs"
proof (induction xs)
  case Nil
  show ?case by (simp add: count_docs_def)
next
  case (Cons x xs)
  with assms[of x] show ?case by (auto simp: count_docs_def)
qed

lemma add_One_empty:
  "add q (One p) opts now oid [] =
     (Inr (InsertedId (oid 0)), [new_msg (oid 0) (insert_visible q opts now) p])"
  by (simp add: add_def)

section \<open>Facts about the operations\<close>

lemma get_none:
  assumes "first_claim q opts (env 0) col = (None, col1)"
  shows "get q opts env col dead = (Inr None, col, dead)"
proof -
  from assms have "col1 = col" by (simp add: sorted_None)
  with assms show ?thesis by (subst get.simps) simp
qed

lemma get_direct:
  assumes "first_claim q opts (env 0) col = (Some d, col1)"
    and "deadQueue q = None \<or> \<not> exceeds (m_tries (external d)) (maxRetries q)"
  shows "get q opts env col dead = (Inr (Some (external d)), col1, dead)"
  using assms by (subst get.simps) (auto split: option.splits)

lemma get_redirect:
  assumes "first_claim q opts (env 0) col = (Some d, col1)"
    and "deadQueue q = Some dq" and "exceeds (m_tries (external d)) (maxRetries q)"
  shows "get q opts env col dead =
     (case add dq (One (external d)) no_opts (at_dead (env 0)) (\<lambda>k. dead_oid (env 0)) dead of
        (Inl e, dead1) \<Rightarrow> (Inl e, col1, dead1)
      | (Inr r, dead1) \<Rightarrow>
          (case ack (m_ack (external d)) (at_ack (env 0)) col1 of
             (Inl e, col2) \<Rightarrow> (Inl e, col2, dead1)
           | (Inr i, col2) \<Rightarrow> get q no_opts (\<lambda>k. env (Suc k)) col2 dead1))"
  using assms by (subst get.simps) simp


lemma insertMany_prefix:
  "insertMany ms col = (r, col') \<Longrightarrow> \<exists>k\<le>length ms. col' = col @ take k ms"
proof (induction ms arbitrary: col r col')
  case Nil
  then show ?case by simp
next
  case (Cons m ms)
  show ?case
  proof (cases "d_id m \<in> d_id ` set col")
    case True
    with Cons.prems have "col' = col @ take 0 (m # ms)" by simp
    then show ?thesis by blast
  next
    case False
    obtain r1 c1 where r1: "insertMany ms (col @ [m]) = (r1, c1)"
      by (cases "insertMany ms (col @ [m])")
    with False Cons.prems have "col' = c1" by (auto split: sum.splits)
    moreover from Cons.IH[OF r1] obtain k where "k \<le> length ms" "c1 = (col @ [m]) @ take k ms"
      by blast
    ultimately have "col' = col @ take (Suc k) (m # ms)" and "Suc k \<le> length (m # ms)" by simp_all
    then show ?thesis by blast
  qed
qed

lemma add_appends:
  assumes "add q payload opts now oid col = (r, col')"
  shows "\<exists>new. col' = col @ new \<and>
           (\<forall>m\<in>set new. d_visible m = insert_visible q opts now \<and> d_tries m = None \<and>
                d_ack m = None \<and> d_deleted m = None)"
proof (cases payload)
  case (One p)
  obtain r1 c1 where r1: "insertMany [new_msg (oid 0) (insert_visible q opts now) p] col = (r1, c1)"
    by (cases "insertMany [new_msg (oid 0) (insert_visible q opts now) p] col")
  with assms One have c: "col' = c1" by (auto simp: add_def split: sum.splits)
  from insertMany_prefix[OF r1] obtain k where
    "c1 = col @ take k [new_msg (oid 0) (insert_visible q opts now) p]" by blast
  moreover have "\<forall>m\<in>set (take k [new_msg (oid 0) (insert_visible q opts now) p]).
       d_visible m = insert_visible q opts now \<and> d_tries m = None \<and> d_ack m = None \<and> d_deleted m = None"
    by (cases k) (simp_all add: new_msg_def)
  ultimately show ?thesis using c by blast
next
  case (Many ps)
  let ?ms = "map (\<lambda>(k, p). new_msg (oid k) (insert_visible q opts now) p) (enumerate 0 ps)"
  show ?thesis
  proof (cases "ps = []")
    case True
    with assms Many have "col' = col @ []" by (simp add: add_def)
    then show ?thesis by fastforce
  next
    case False
    obtain r1 c1 where r1: "insertMany ?ms col = (r1, c1)" by (cases "insertMany ?ms col")
    with assms Many False have c: "col' = c1" by (auto simp: add_def split: sum.splits)
    from insertMany_prefix[OF r1] obtain k where k: "c1 = col @ take k ?ms" by blast
    have "\<forall>m\<in>set ?ms. d_visible m = insert_visible q opts now \<and> d_tries m = None \<and>
             d_ack m = None \<and> d_deleted m = None"
      by (auto simp: new_msg_def)
    then have "\<forall>m\<in>set (take k ?ms). d_visible m = insert_visible q opts now \<and> d_tries m = None \<and>
             d_ack m = None \<and> d_deleted m = None"
      by (meson in_set_takeD)
    with k c show ?thesis by blast
  qed
qed

text \<open>
  What \<open>addIfMissing\<close> stores and returns: one message when the identifier is new, nothing
  otherwise; the value returned is none in both cases.
\<close>

lemma addIfMissing_result:
  "addIfMissing q i p opts now col =
     (None, if i \<in> d_id ` set col then col else col @ [new_msg i (insert_visible q opts now) p])"
  by (simp add: addIfMissing_def upsert_setOnInsert_def nUpserted_def)

lemma addIfMissing_appends:
  assumes "addIfMissing q i p opts now col = (r, col')"
  shows "\<exists>new. col' = col @ new \<and>
           (\<forall>m\<in>set new. d_visible m = insert_visible q opts now \<and> d_tries m = None \<and>
                d_ack m = None \<and> d_deleted m = None)"
proof (cases "i \<in> d_id ` set col")
  case True
  with assms have "col' = col @ []" by (simp add: addIfMissing_result)
  then show ?thesis by fastforce
next
  case False
  with assms have "col' = col @ [new_msg i (insert_visible q opts now) p]"
    by (simp add: addIfMissing_result)
  moreover have "\<forall>m\<in>set [new_msg i (insert_visible q opts now) p].
      d_visible m = insert_visible q opts now \<and> d_tries m = None \<and> d_ack m = None \<and> d_deleted m = None"
    by (simp add: new_msg_def)
  ultimately show ?thesis by blast
qed

text \<open>What \<open>ping\<close> and a \<open>get\<close> that is not redirected change in the collection.\<close>

lemma ping_changes:
  assumes "ping q a opts now col = (r, col')"
  shows "length col' = length col \<and>
         (\<forall>i<length col. col' ! i = col ! i \<or>
             col' ! i = (col ! i)\<lparr>d_visible := nowPlusSecs now (js_or (o_visibility opts) (visibility q))\<rparr> \<and>
             leased a now (col ! i))"
proof -
  let ?u = "\<lambda>d. d\<lparr>d_visible := nowPlusSecs now (js_or (o_visibility opts) (visibility q))\<rparr>"
  from foau_cases[of col "leased a now" ?u] show ?thesis
  proof
    assume "(\<forall>x\<in>set col. \<not> leased a now x) \<and> findOneAndUpdate (leased a now) ?u col = (None, col)"
    with assms have "col' = col" by (simp add: ping_def)
    then show ?thesis by simp
  next
    assume "\<exists>i<length col. leased a now (col ! i) \<and> (\<forall>j<i. \<not> leased a now (col ! j)) \<and>
        findOneAndUpdate (leased a now) ?u col = (Some (?u (col ! i)), col[i := ?u (col ! i)])"
    then obtain i where i: "i < length col" "leased a now (col ! i)"
      "findOneAndUpdate (leased a now) ?u col = (Some (?u (col ! i)), col[i := ?u (col ! i)])"
      by blast
    with assms have "col' = col[i := ?u (col ! i)]" by (simp add: ping_def)
    with i(1,2) show ?thesis by (auto simp: nth_list_update)
  qed
qed

lemma get_direct_changes:
  assumes "deadQueue q = None \<or>
           (\<forall>d\<in>set col. d_deleted d = None \<and> d_visible d \<le> at_get (env 0)
               \<longrightarrow> \<not> exceeds (Suc (tries_of d)) (maxRetries q))"
  shows "length (fst (snd (get q opts env col dead))) = length col \<and>
         (\<forall>i<length col. fst (snd (get q opts env col dead)) ! i = col ! i \<or>
             fst (snd (get q opts env col dead)) ! i =
               claim_update (new_ack (env 0))
                 (nowPlusSecs (at_get (env 0)) (js_or (o_visibility opts) (visibility q))) (col ! i) \<and>
             claimable (at_get (env 0)) (col ! i))"
proof (cases "first_claim q opts (env 0) col")
  case (Pair r col1)
  show ?thesis
  proof (cases r)
    case None
    with Pair have "get q opts env col dead = (Inr None, col, dead)" by (simp add: get_none)
    then show ?thesis by simp
  next
    case (Some d)
    from Pair Some sorted_Some[of "claimable (at_get (env 0))" _ col d col1]
    obtain i where i: "i < length col" "claimable (at_get (env 0)) (col ! i)"
      "d = claim_update (new_ack (env 0))
          (nowPlusSecs (at_get (env 0)) (js_or (o_visibility opts) (visibility q))) (col ! i)"
      "col1 = col[i := claim_update (new_ack (env 0))
          (nowPlusSecs (at_get (env 0)) (js_or (o_visibility opts) (visibility q))) (col ! i)]"
      by blast
    have "m_tries (external d) = Suc (tries_of (col ! i))"
      unfolding i(3) by (simp add: external_claim_update)
    with assms i(1,2) have "deadQueue q = None \<or> \<not> exceeds (m_tries (external d)) (maxRetries q)"
      by (auto simp: claimable_def)
    with Pair Some have g: "get q opts env col dead = (Inr (Some (external d)), col1, dead)"
      by (simp add: get_direct)
    with i show ?thesis by (auto simp: nth_list_update)
  qed
qed

section \<open>Facts about get over all its attempts\<close>

text \<open>
  The five ways in which \<open>get\<close> ends or goes on, as a rule: a property that holds of each
  holds of the result of \<open>get\<close>.
\<close>

lemma get_rule [case_names none direct add_failed ack_failed redirected]:
  assumes none: "\<And>opts env col dead.
      first_claim q opts (env 0) col = (None, col) \<Longrightarrow> P opts env col dead (Inr None, col, dead)"
    and direct: "\<And>opts env col dead d col1.
      first_claim q opts (env 0) col = (Some d, col1) \<Longrightarrow>
      deadQueue q = None \<or> \<not> exceeds (m_tries (external d)) (maxRetries q) \<Longrightarrow>
      P opts env col dead (Inr (Some (external d)), col1, dead)"
    and add_failed: "\<And>opts env col dead d col1 dq e dead1.
      first_claim q opts (env 0) col = (Some d, col1) \<Longrightarrow>
      deadQueue q = Some dq \<Longrightarrow> exceeds (m_tries (external d)) (maxRetries q) \<Longrightarrow>
      add dq (One (external d)) no_opts (at_dead (env 0)) (\<lambda>k. dead_oid (env 0)) dead = (Inl e, dead1) \<Longrightarrow>
      P opts env col dead (Inl e, col1, dead1)"
    and ack_failed: "\<And>opts env col dead d col1 dq r dead1 e.
      first_claim q opts (env 0) col = (Some d, col1) \<Longrightarrow>
      deadQueue q = Some dq \<Longrightarrow> exceeds (m_tries (external d)) (maxRetries q) \<Longrightarrow>
      add dq (One (external d)) no_opts (at_dead (env 0)) (\<lambda>k. dead_oid (env 0)) dead = (Inr r, dead1) \<Longrightarrow>
      ack (m_ack (external d)) (at_ack (env 0)) col1 = (Inl e, col1) \<Longrightarrow>
      P opts env col dead (Inl e, col1, dead1)"
    and redirected: "\<And>opts env col dead d col1 dq r dead1 i col2.
      first_claim q opts (env 0) col = (Some d, col1) \<Longrightarrow>
      deadQueue q = Some dq \<Longrightarrow> exceeds (m_tries (external d)) (maxRetries q) \<Longrightarrow>
      add dq (One (external d)) no_opts (at_dead (env 0)) (\<lambda>k. dead_oid (env 0)) dead = (Inr r, dead1) \<Longrightarrow>
      ack (m_ack (external d)) (at_ack (env 0)) col1 = (Inr i, col2) \<Longrightarrow>
      P no_opts (\<lambda>k. env (Suc k)) col2 dead1 (get q no_opts (\<lambda>k. env (Suc k)) col2 dead1) \<Longrightarrow>
      P opts env col dead (get q no_opts (\<lambda>k. env (Suc k)) col2 dead1)"
  shows "P opts env col dead (get q opts env col dead)"
  using assms
proof (induction q opts env col dead rule: get.induct)
  case (1 q opts env col dead)
  obtain r col1 where fc: "first_claim q opts (env 0) col = (r, col1)"
    by (cases "first_claim q opts (env 0) col")
  show ?case
  proof (cases r)
    case None
    with fc have "col1 = col" by (simp add: sorted_None)
    with fc None have fc0: "first_claim q opts (env 0) col = (None, col)" by simp
    from "1.prems"(1)[where env=env, OF fc0] get_none[where env=env, OF fc0] show ?thesis by simp
  next
    case (Some d)
    note fc' = fc[unfolded Some]
    show ?thesis
    proof (cases "deadQueue q = None \<or> \<not> exceeds (m_tries (external d)) (maxRetries q)")
      case True
      from "1.prems"(2)[where env=env, OF fc' True] get_direct[where env=env, OF fc' True] show ?thesis by simp
    next
      case False
      then obtain dq where dq: "deadQueue q = Some dq"
        and ex: "exceeds (m_tries (external d)) (maxRetries q)" by auto
      obtain ra dead1 where a: "add dq (One (external d)) no_opts (at_dead (env 0))
          (\<lambda>k. dead_oid (env 0)) dead = (ra, dead1)"
        by (cases "add dq (One (external d)) no_opts (at_dead (env 0)) (\<lambda>k. dead_oid (env 0)) dead")
      note g = get_redirect[where env=env and dead=dead, OF fc' dq ex]
      show ?thesis
      proof (cases ra)
        case (Inl e)
        with g a have "get q opts env col dead = (Inl e, col1, dead1)" by simp
        with "1.prems"(3)[where env=env, OF fc' dq ex a[unfolded Inl]] show ?thesis by simp
      next
        case (Inr r')
        obtain rk col2 where k: "ack (m_ack (external d)) (at_ack (env 0)) col1 = (rk, col2)"
          by (cases "ack (m_ack (external d)) (at_ack (env 0)) col1")
        show ?thesis
        proof (cases rk)
          case (Inl e)
          with k ack_Inl have c2: "col2 = col1" by blast
          from g a Inr k Inl have "get q opts env col dead = (Inl e, col2, dead1)" by simp
          with "1.prems"(4)[where env=env, OF fc' dq ex a[unfolded Inr] k[unfolded Inl c2]] c2 show ?thesis by simp
        next
          case (Inr i)
          from g a \<open>ra = Inr r'\<close> k Inr
          have eq: "get q opts env col dead = get q no_opts (\<lambda>k. env (Suc k)) col2 dead1" by simp
          have "P no_opts (\<lambda>k. env (Suc k)) col2 dead1 (get q no_opts (\<lambda>k. env (Suc k)) col2 dead1)"
            by (rule "1.IH"[OF fc[symmetric] Some dq ex a[symmetric] \<open>ra = Inr r'\<close> k[symmetric] Inr
                  "1.prems"])
          from "1.prems"(5)[where env=env, OF fc' dq ex a[unfolded \<open>ra = Inr r'\<close>] k[unfolded Inr] this] eq
          show ?thesis by simp
        qed
      qed
    qed
  qed
qed

lemma frame_refl: "frame col col"
  by (simp add: frame_def)

lemma frame_trans: "frame a b \<Longrightarrow> frame b c \<Longrightarrow> frame a c"
  unfolding frame_def by (metis (no_types, lifting))

lemma frame_update:
  assumes "i < length col" "d_deleted (col ! i) = None" "d_id y = d_id (col ! i)"
    "d_payload y = d_payload (col ! i)"
  shows "frame col (col[i := y])"
  using assms by (auto simp: frame_def nth_list_update)

lemma first_claim_Some:
  assumes "first_claim q opts a col = (Some d, col1)"
  shows "\<exists>i<length col. claimable (at_get a) (col ! i) \<and>
           (\<forall>e\<in>set col. claimable (at_get a) e \<longrightarrow> d_id (col ! i) \<le> d_id e) \<and>
           d = (col ! i)\<lparr>d_tries := Some (Suc (tries_of (col ! i))), d_ack := Some (new_ack a),
                  d_visible := nowPlusSecs (at_get a) (js_or (o_visibility opts) (visibility q))\<rparr> \<and>
           col1 = col[i := d]"
  using sorted_Some[OF assms] by (auto simp: claim_update_def)

lemma frame_claim:
  assumes "first_claim q opts a col = (Some d, col1)"
  shows "frame col col1"
proof -
  from first_claim_Some[OF assms] obtain i where i: "i < length col"
    "claimable (at_get a) (col ! i)"
    "d = (col ! i)\<lparr>d_tries := Some (Suc (tries_of (col ! i))), d_ack := Some (new_ack a),
                  d_visible := nowPlusSecs (at_get a) (js_or (o_visibility opts) (visibility q))\<rparr>"
    "col1 = col[i := d]" by blast
  from i(1,2) show ?thesis unfolding i(4) by (intro frame_update) (simp_all add: i(3) claimable_def)
qed

lemma frame_ack:
  assumes "ack a now col = (r, col')"
  shows "frame col col'"
proof (cases r)
  case (Inl e)
  with assms ack_Inl have "col' = col" by blast
  then show ?thesis by (simp add: frame_refl)
next
  case (Inr i)
  with assms ack_Inr obtain j where "j < length col" "leased a now (col ! j)"
    "col' = col[j := (col ! j)\<lparr>d_deleted := Some now\<rparr>]" by blast
  then show ?thesis by (auto simp: leased_def intro!: frame_update)
qed

lemma frame_get: "frame col (fst (snd (get q opts env col dead)))"
proof (induction opts env col dead rule: get_rule[where q=q])
  case (none opts env col dead)
  show ?case by (simp add: frame_refl)
next
  case (direct opts env col dead d col1)
  then show ?case by (simp add: frame_claim)
next
  case (add_failed opts env col dead d col1 dq e dead1)
  then show ?case by (simp add: frame_claim)
next
  case (ack_failed opts env col dead d col1 dq r dead1 e)
  then show ?case by (simp add: frame_claim)
next
  case (redirected opts env col dead d col1 dq r dead1 i col2)
  from redirected(1) have "frame col col1" by (rule frame_claim)
  moreover from redirected(5) have "frame col1 col2" by (rule frame_ack)
  ultimately show ?case using redirected(6) by (blast intro: frame_trans)
qed

section \<open>Finalized messages\<close>

lemma frame_ids: "frame col col' \<Longrightarrow> map d_id col' = map d_id col"
  by (rule nth_equalityI) (simp_all add: frame_def)

lemma get_returned_undeleted:
  "fst (get q opts env col dead) = Inr (Some m) \<longrightarrow>
     (\<exists>j<length col. d_deleted (col ! j) = None \<and> d_id (col ! j) = m_id m \<and>
         d_payload (col ! j) = m_payload m)"
proof (induction opts env col dead rule: get_rule[where q=q])
  case (none opts env col dead)
  show ?case by simp
next
  case (direct opts env col dead d col1)
  from first_claim_Some[OF direct(1)] show ?case
    by (auto simp: claimable_def external_def)
next
  case (add_failed opts env col dead d col1 dq e dead1)
  show ?case by simp
next
  case (ack_failed opts env col dead d col1 dq r dead1 e)
  show ?case by simp
next
  case (redirected opts env col dead d col1 dq r dead1 i col2)
  from redirected(1) have "frame col col1" by (rule frame_claim)
  moreover from redirected(5) have "frame col1 col2" by (rule frame_ack)
  ultimately have f: "frame col col2" by (rule frame_trans)
  show ?case
  proof
    assume "fst (get q no_opts (\<lambda>k. env (Suc k)) col2 dead1) = Inr (Some m)"
    with redirected(6) obtain j where j: "j < length col2" "d_deleted (col2 ! j) = None"
      "d_id (col2 ! j) = m_id m" "d_payload (col2 ! j) = m_payload m" by blast
    from f j have "j < length col \<and> d_deleted (col ! j) = None \<and> d_id (col ! j) = m_id m \<and>
        d_payload (col ! j) = m_payload m"
      unfolding frame_def by metis
    then show "\<exists>j<length col. d_deleted (col ! j) = None \<and> d_id (col ! j) = m_id m \<and>
         d_payload (col ! j) = m_payload m" by blast
  qed
qed

lemma cancel_changes:
  assumes "cancel x now col = (r, col')"
  shows "length col' = length col \<and>
         (\<forall>i<length col. col' ! i = col ! i \<or>
             col' ! i = (col ! i)\<lparr>d_deleted := Some now\<rparr> \<and> d_id (col ! i) = x \<and>
             claimable now (col ! i))"
proof -
  let ?u = "\<lambda>d. d\<lparr>d_deleted := Some now\<rparr>"
  let ?P = "\<lambda>d. d_id d = x \<and> claimable now d"
  from foau_cases[of col ?P ?u] show ?thesis
  proof
    assume "(\<forall>x\<in>set col. \<not> ?P x) \<and> findOneAndUpdate ?P ?u col = (None, col)"
    with assms have "col' = col" by (simp add: cancel_def)
    then show ?thesis by simp
  next
    assume "\<exists>i<length col. ?P (col ! i) \<and> (\<forall>j<i. \<not> ?P (col ! j)) \<and>
        findOneAndUpdate ?P ?u col = (Some (?u (col ! i)), col[i := ?u (col ! i)])"
    then obtain i where i: "i < length col" "?P (col ! i)"
      "findOneAndUpdate ?P ?u col = (Some (?u (col ! i)), col[i := ?u (col ! i)])"
      by blast
    with assms have "col' = col[i := ?u (col ! i)]" by (simp add: cancel_def)
    with i(1,2) show ?thesis by (auto simp: nth_list_update)
  qed
qed

lemma ack_changes:
  assumes "ack a now col = (r, col')"
  shows "length col' = length col \<and>
         (\<forall>i<length col. col' ! i = col ! i \<or>
             col' ! i = (col ! i)\<lparr>d_deleted := Some now\<rparr> \<and> leased a now (col ! i))"
proof (cases r)
  case (Inl e)
  with assms ack_Inl have "col' = col" by blast
  then show ?thesis by simp
next
  case (Inr i)
  with assms ack_Inr obtain j where "j < length col" "leased a now (col ! j)"
    "col' = col[j := (col ! j)\<lparr>d_deleted := Some now\<rparr>]" by blast
  then show ?thesis by (auto simp: nth_list_update)
qed

lemma insertMany_distinct:
  "distinct (map d_id col) \<Longrightarrow> insertMany ms col = (r, col') \<Longrightarrow> distinct (map d_id col')"
proof (induction ms arbitrary: col r col')
  case Nil
  then show ?case by simp
next
  case (Cons m ms)
  show ?case
  proof (cases "d_id m \<in> d_id ` set col")
    case True
    with Cons.prems show ?thesis by simp
  next
    case False
    obtain r1 c1 where r1: "insertMany ms (col @ [m]) = (r1, c1)"
      by (cases "insertMany ms (col @ [m])")
    with False Cons.prems have "col' = c1" by (auto split: sum.splits)
    moreover from False Cons.prems(1) have "distinct (map d_id (col @ [m]))" by auto
    ultimately show ?thesis using Cons.IH[OF _ r1] by simp
  qed
qed

lemma add_distinct:
  assumes "distinct (map d_id col)"
  shows "distinct (map d_id (snd (add q payload opts now oid col)))"
proof (cases payload)
  case (One p)
  obtain r1 c1 where r1: "insertMany [new_msg (oid 0) (insert_visible q opts now) p] col = (r1, c1)"
    by (cases "insertMany [new_msg (oid 0) (insert_visible q opts now) p] col")
  with One have "snd (add q payload opts now oid col) = c1"
    by (auto simp: add_def split: sum.splits)
  with insertMany_distinct[OF assms r1] show ?thesis by simp
next
  case (Many ps)
  let ?ms = "map (\<lambda>(k, p). new_msg (oid k) (insert_visible q opts now) p) (enumerate 0 ps)"
  show ?thesis
  proof (cases "ps = []")
    case True
    with Many assms show ?thesis by (simp add: add_def)
  next
    case False
    obtain r1 c1 where r1: "insertMany ?ms col = (r1, c1)" by (cases "insertMany ?ms col")
    with Many False have "snd (add q payload opts now oid col) = c1"
      by (auto simp: add_def split: sum.splits)
    with insertMany_distinct[OF assms r1] show ?thesis by simp
  qed
qed

lemma changes_ids:
  assumes "length col' = length col" and "\<forall>i<length col. d_id (col' ! i) = d_id (col ! i)"
  shows "map d_id col' = map d_id col"
  using assms by (intro nth_equalityI) simp_all

lemma reachable_distinct: "reachable col \<Longrightarrow> distinct (map d_id col)"
proof (induction rule: reachable.induct)
  case r_empty
  show ?case by simp
next
  case (r_add col q payload opts now oid)
  then show ?case by (simp add: add_distinct)
next
  case (r_addIfMissing col q x p opts now)
  then show ?case by (auto simp: addIfMissing_result new_msg_def)
next
  case (r_get col q opts env dead)
  with frame_ids[OF frame_get[of col q opts env dead]] show ?case by simp
next
  case (r_ping col q a opts now)
  have "map d_id (snd (ping q a opts now col)) = map d_id col"
    using ping_changes[of q a opts now col, OF prod.collapse[symmetric]]
    by (intro changes_ids) auto
  with r_ping show ?case by simp
next
  case (r_ack col a now)
  have "map d_id (snd (ack a now col)) = map d_id col"
    using ack_changes[of a now col, OF prod.collapse[symmetric]]
    by (intro changes_ids) auto
  with r_ack show ?case by simp
next
  case (r_cancel col x now)
  have "map d_id (snd (cancel x now col)) = map d_id col"
    using cancel_changes[of x now col, OF prod.collapse[symmetric]]
    by (intro changes_ids) auto
  with r_cancel show ?case by simp
next
  case (r_clean col)
  then show ?case by (simp add: clean_def deleteMany_def distinct_map_filter)
qed

section \<open>The dead-letter queue\<close>

lemma get_within_ceiling:
  "fst (get q opts env col dead) = Inr (Some m) \<longrightarrow>
     deadQueue q = None \<or> \<not> exceeds (m_tries m) (maxRetries q)"
proof (induction opts env col dead rule: get_rule[where q=q])
  case (none opts env col dead)
  show ?case by simp
next
  case (direct opts env col dead d col1)
  then show ?case by auto
next
  case (add_failed opts env col dead d col1 dq e dead1)
  show ?case by simp
next
  case (ack_failed opts env col dead d col1 dq r dead1 e)
  show ?case by simp
next
  case (redirected opts env col dead d col1 dq r dead1 i col2)
  then show ?case by simp
qed

lemma add_One_fresh:
  assumes "oid 0 \<notin> d_id ` set col"
  shows "add q (One p) opts now oid col =
           (Inr (InsertedId (oid 0)), col @ [new_msg (oid 0) (insert_visible q opts now) p])"
  using assms by (simp add: add_def new_msg_def)

lemma ack_live:
  assumes "i < length col" and "leased a now (col ! i)"
  shows "\<exists>j<length col. leased a now (col ! j) \<and>
           ack a now col = (Inr (d_id (col ! j)), col[j := (col ! j)\<lparr>d_deleted := Some now\<rparr>])"
proof -
  from assms have "\<not> (\<forall>x\<in>set col. \<not> leased a now x)" by auto
  with foau_cases[of col "leased a now" "\<lambda>d. d\<lparr>d_deleted := Some now\<rparr>"]
  obtain j where "j < length col" "leased a now (col ! j)"
    "findOneAndUpdate (leased a now) (\<lambda>d. d\<lparr>d_deleted := Some now\<rparr>) col =
       (Some ((col ! j)\<lparr>d_deleted := Some now\<rparr>), col[j := (col ! j)\<lparr>d_deleted := Some now\<rparr>])"
    by blast
  then show ?thesis by (auto simp: ack_def)
qed

text \<open>
  The lease of the message that \<open>get\<close> returns: it was claimed at some attempt \<open>k\<close>, with
  the visibility of the call at the first attempt and with that of the queue at a later one.
\<close>

lemma get_returned_lease:
  "fst (get q opts env col dead) = Inr (Some m) \<longrightarrow>
     (\<exists>k i. i < length (fst (snd (get q opts env col dead))) \<and>
        d_id (fst (snd (get q opts env col dead)) ! i) = m_id m \<and>
        d_ack (fst (snd (get q opts env col dead)) ! i) = Some (m_ack m) \<and>
        d_visible (fst (snd (get q opts env col dead)) ! i) =
          nowPlusSecs (at_get (env k))
            (if k = 0 then js_or (o_visibility opts) (visibility q) else visibility q) \<and>
        (k = 0 \<longrightarrow> snd (snd (get q opts env col dead)) = dead))"
proof (induction opts env col dead rule: get_rule[where q=q])
  case (none opts env col dead)
  show ?case by simp
next
  case (direct opts env col dead d col1)
  from first_claim_Some[OF direct(1)] obtain i where i: "i < length col"
    "d = (col ! i)\<lparr>d_tries := Some (Suc (tries_of (col ! i))), d_ack := Some (new_ack (env 0)),
          d_visible := nowPlusSecs (at_get (env 0)) (js_or (o_visibility opts) (visibility q))\<rparr>"
    "col1 = col[i := d]" by blast
  then have "i < length col1" "d_id (col1 ! i) = m_id (external d)"
    "d_ack (col1 ! i) = Some (m_ack (external d))"
    "d_visible (col1 ! i) = nowPlusSecs (at_get (env 0)) (js_or (o_visibility opts) (visibility q))"
    by (simp_all add: external_def)
  then show ?case by (intro impI exI[of _ 0] exI[of _ i]) auto
next
  case (add_failed opts env col dead d col1 dq e dead1)
  show ?case by simp
next
  case (ack_failed opts env col dead d col1 dq r dead1 e)
  show ?case by simp
next
  case (redirected opts env col dead d col1 dq r dead1 i col2)
  let ?res = "get q no_opts (\<lambda>k. env (Suc k)) col2 dead1"
  show ?case
  proof
    assume "fst ?res = Inr (Some m)"
    with redirected(6) obtain k j where kj: "j < length (fst (snd ?res))"
      "d_id (fst (snd ?res) ! j) = m_id m" "d_ack (fst (snd ?res) ! j) = Some (m_ack m)"
      "d_visible (fst (snd ?res) ! j) =
          nowPlusSecs (at_get (env (Suc k)))
            (if k = 0 then js_or (o_visibility no_opts) (visibility q) else visibility q)"
      by blast
    have "(if k = 0 then js_or (o_visibility no_opts) (visibility q) else visibility q) = visibility q"
      by (simp add: js_or_def no_opts_def)
    with kj(4) have "d_visible (fst (snd ?res) ! j) =
          nowPlusSecs (at_get (env (Suc k)))
            (if Suc k = 0 then js_or (o_visibility opts) (visibility q) else visibility q)"
      by simp
    with kj(1,2,3) show "\<exists>k i. i < length (fst (snd ?res)) \<and>
        d_id (fst (snd ?res) ! i) = m_id m \<and> d_ack (fst (snd ?res) ! i) = Some (m_ack m) \<and>
        d_visible (fst (snd ?res) ! i) =
          nowPlusSecs (at_get (env k))
            (if k = 0 then js_or (o_visibility opts) (visibility q) else visibility q) \<and>
        (k = 0 \<longrightarrow> snd (snd ?res) = dead)"
      by (intro exI[of _ "Suc k"] exI[of _ j]) simp
  qed
qed

section \<open>The visibility instant\<close>





section \<open>The retry counter\<close>



section \<open>The results of ping and of a claim\<close>




section \<open>The claims\<close>



text \<open>
  Claim C2. On a queue with a dead-letter queue and a retry ceiling, \<open>get\<close> never returns
  a message whose \<open>tries\<close> exceeds the ceiling. When the message just claimed exceeds it,
  its external representation (id, ack, payload, tries) is added as one payload to the
  dead-letter queue by that queue's own \<open>add\<close>, the message holding the token is finalized
  by \<open>ack\<close>, and the result is that of \<open>get\<close> called again. (The identifier the
  dead-letter store generates is new there, and the acknowledgement is made while the
  lease is live; otherwise \<open>get\<close> returns the error of the failing call.)
\<close>

theorem over_retried_redirected:
  assumes "deadQueue q = Some dq" and "maxRetries q = Some mr"
  shows "(\<forall>m. fst (get q opts env col dead) = Inr (Some m) \<longrightarrow> int (m_tries m) \<le> mr) \<and>
         (\<forall>d col1.
            first_claim q opts (env 0) col = (Some d, col1) \<and> mr < int (m_tries (external d)) \<and>
            dead_oid (env 0) \<notin> d_id ` set dead \<and> at_ack (env 0) < d_visible d
            \<longrightarrow> (\<exists>j<length col1.
                   d_ack (col1 ! j) = Some (m_ack (external d)) \<and> d_deleted (col1 ! j) = None \<and>
                   get q opts env col dead =
                     get q no_opts (\<lambda>k. env (Suc k))
                       (col1[j := (col1 ! j)\<lparr>d_deleted := Some (at_ack (env 0))\<rparr>])
                       (dead @ [\<lparr>d_id = dead_oid (env 0),
                                 d_visible = insert_visible dq no_opts (at_dead (env 0)),
                                 d_payload = external d,
                                 d_tries = None, d_ack = None, d_deleted = None\<rparr>])))"
proof (intro conjI allI impI)
  fix m assume "fst (get q opts env col dead) = Inr (Some m)"
  with get_within_ceiling[of q opts env col dead m] assms
  show "int (m_tries m) \<le> mr" by (simp add: exceeds_def)
next
  fix d col1
  assume h: "first_claim q opts (env 0) col = (Some d, col1) \<and> mr < int (m_tries (external d)) \<and>
            dead_oid (env 0) \<notin> d_id ` set dead \<and> at_ack (env 0) < d_visible d"
  then have fc: "first_claim q opts (env 0) col = (Some d, col1)" by simp
  from h assms have ex: "exceeds (m_tries (external d)) (maxRetries q)" by (simp add: exceeds_def)
  let ?dm = "\<lparr>d_id = dead_oid (env 0), d_visible = insert_visible dq no_opts (at_dead (env 0)),
              d_payload = external d, d_tries = None, d_ack = None, d_deleted = None\<rparr>"
  from h have a: "add dq (One (external d)) no_opts (at_dead (env 0)) (\<lambda>k. dead_oid (env 0)) dead
      = (Inr (InsertedId (dead_oid (env 0))), dead @ [?dm])"
    by (simp add: add_One_fresh new_msg_def)
  from first_claim_Some[OF fc] obtain i where i: "i < length col"
    "claimable (at_get (env 0)) (col ! i)"
    "d = (col ! i)\<lparr>d_tries := Some (Suc (tries_of (col ! i))), d_ack := Some (new_ack (env 0)),
          d_visible := nowPlusSecs (at_get (env 0)) (js_or (o_visibility opts) (visibility q))\<rparr>"
    "col1 = col[i := d]" by blast
  have tok: "m_ack (external d) = new_ack (env 0)" by (simp add: i(3) external_def)
  from i have "i < length col1" and "col1 ! i = d" by simp_all
  moreover from h i(2,3) have "leased (new_ack (env 0)) (at_ack (env 0)) d"
    by (simp add: leased_def claimable_def)
  ultimately obtain j where j: "j < length col1" "leased (new_ack (env 0)) (at_ack (env 0)) (col1 ! j)"
    "ack (new_ack (env 0)) (at_ack (env 0)) col1 =
       (Inr (d_id (col1 ! j)), col1[j := (col1 ! j)\<lparr>d_deleted := Some (at_ack (env 0))\<rparr>])"
    using ack_live[of i col1 "new_ack (env 0)" "at_ack (env 0)"] by auto
  from get_redirect[where env=env and dead=dead, OF fc assms(1) ex] a j(3) tok
  have "get q opts env col dead =
          get q no_opts (\<lambda>k. env (Suc k))
            (col1[j := (col1 ! j)\<lparr>d_deleted := Some (at_ack (env 0))\<rparr>]) (dead @ [?dm])"
    by simp
  with j(1,2) tok show "\<exists>j<length col1.
                   d_ack (col1 ! j) = Some (m_ack (external d)) \<and> d_deleted (col1 ! j) = None \<and>
                   get q opts env col dead =
                     get q no_opts (\<lambda>k. env (Suc k))
                       (col1[j := (col1 ! j)\<lparr>d_deleted := Some (at_ack (env 0))\<rparr>])
                       (dead @ [?dm])"
    by (auto simp: leased_def)
qed

text \<open>
  An instance: with a ceiling of 2, the third claim of a message moves it to the
  dead-letter queue and finalizes it; \<open>get\<close> returns none.
\<close>

theorem over_retried_redirected_witness:
  "deadQueue (Queue 30 0 (Some (Queue 30 0 None None)) (Some 2)) = Some (Queue 30 0 None None) \<and>
   maxRetries (Queue 30 0 (Some (Queue 30 0 None None)) (Some 2)) = Some 2 \<and>
   get (Queue 30 0 (Some (Queue 30 0 None None)) (Some 2)) no_opts
       (\<lambda>k. \<lparr>at_get = 1000 + 10 * int k, new_ack = ''t3'', at_dead = 1001 + 10 * int k,
              dead_oid = 7, at_ack = 1002 + 10 * int k\<rparr>)
       [\<lparr>d_id = 1, d_visible = 500, d_payload = ''a'', d_tries = Some 2, d_ack = Some ''t2'', d_deleted = None\<rparr>]
       []
   = (Inr None,
      [\<lparr>d_id = 1, d_visible = 31000, d_payload = ''a'', d_tries = Some 3, d_ack = Some ''t3'',
        d_deleted = Some 1002\<rparr>],
      [\<lparr>d_id = 7, d_visible = 1001,
        d_payload = \<lparr>m_id = 1, m_ack = ''t3'', m_payload = ''a'', m_tries = 3\<rparr>,
        d_tries = None, d_ack = None, d_deleted = None\<rparr>])"
proof -
  let ?dq = "Queue 30 0 None None"
  let ?q = "Queue 30 0 (Some ?dq) (Some 2)"
  let ?env = "\<lambda>k. \<lparr>at_get = 1000 + 10 * int k, new_ack = ''t3'', at_dead = 1001 + 10 * int k,
              dead_oid = 7, at_ack = 1002 + 10 * int k\<rparr>"
  let ?col = "[\<lparr>d_id = 1::nat, d_visible = 500::int, d_payload = ''a'', d_tries = Some 2,
                d_ack = Some ''t2'', d_deleted = None\<rparr>]"
  let ?d = "\<lparr>d_id = 1::nat, d_visible = 31000::int, d_payload = ''a'', d_tries = Some 3,
             d_ack = Some ''t3'', d_deleted = None\<rparr>"
  let ?col2 = "[?d\<lparr>d_deleted := Some 1002\<rparr>]"
  let ?dead1 = "[\<lparr>d_id = 7::nat, d_visible = 1001::int,
        d_payload = \<lparr>m_id = 1, m_ack = ''t3'', m_payload = ''a'', m_tries = 3\<rparr>,
        d_tries = None, d_ack = None, d_deleted = None\<rparr>]"
  have dq: "deadQueue ?q = Some ?dq" and mr: "maxRetries ?q = Some 2" by simp_all
  have fc: "first_claim ?q no_opts (?env 0) ?col = (Some ?d, [?d])"
    by (simp add: findOneAndUpdate_sorted_def least_id_def claimable_def claim_update_def
        nowPlusSecs_def js_or_def no_opts_def tries_of_def)
  have ext: "external ?d = \<lparr>m_id = 1, m_ack = ''t3'', m_payload = ''a'', m_tries = 3\<rparr>"
    by (simp add: external_def tries_of_def)
  from over_retried_redirected[OF dq mr, of no_opts ?env ?col "[]"] fc ext
  have "get ?q no_opts ?env ?col [] = get ?q no_opts (\<lambda>k. ?env (Suc k)) ?col2 ?dead1"
    by (simp add: insert_visible_def js_or_def no_opts_def)
  moreover have "first_claim ?q no_opts ((\<lambda>k. ?env (Suc k)) 0) ?col2 = (None, ?col2)"
    by (simp add: findOneAndUpdate_sorted_def least_id_def claimable_def)
  then have "get ?q no_opts (\<lambda>k. ?env (Suc k)) ?col2 ?dead1 = (Inr None, ?col2, ?dead1)"
    by (rule get_none[where env="\<lambda>k. ?env (Suc k)"])
  ultimately show ?thesis by simp
qed

text \<open>
  Claim C3 says that a successful \<open>ping\<close> sets a later \<open>visible\<close>. \<open>ping\<close> sets
  \<open>now + visibility\<close> whatever the lease was: a message claimed with a visibility of 120
  seconds and pinged at 5000 with the 30 seconds of the queue is leased until 35000
  instead of 120000.
\<close>

theorem ping_default_shortens_lease_counterexample:
  "ping (Queue 30 0 None None) ''t1'' no_opts 5000
     [\<lparr>d_id = 1, d_visible = 120000, d_payload = ''a'', d_tries = Some 1, d_ack = Some ''t1'',
       d_deleted = None\<rparr>]
   = (Inr 1,
      [\<lparr>d_id = 1, d_visible = 35000, d_payload = ''a'', d_tries = Some 1, d_ack = Some ''t1'',
        d_deleted = None\<rparr>]) \<and>
   (35000 :: int) < 120000"
  by (simp add: ping_def leased_def nowPlusSecs_def js_or_def no_opts_def)

text \<open>
  Claim C3, as amended. \<open>ping\<close> and \<open>ack\<close> succeed exactly when some message has the
  given token as \<open>ack\<close>, no \<open>deleted\<close> and \<open>visible > now\<close>. Then \<open>ping\<close> sets \<open>visible\<close> of
  one such message to \<open>now + visibility\<close>, which is later than \<open>now\<close> for a positive
  visibility (and may be earlier than the \<open>visible\<close> it had), and returns its identifier;
  \<open>ack\<close> sets its \<open>deleted\<close> to \<open>now\<close> and returns its identifier. Otherwise, whether the
  token is unknown or the lease has expired, each fails with its unidentified-ack error and
  the collection is unchanged.
\<close>

theorem ping_ack_match:
  "(if \<exists>d\<in>set col. d_ack d = Some a \<and> now < d_visible d \<and> d_deleted d = None
    then (\<exists>i<length col.
            d_ack (col ! i) = Some a \<and> now < d_visible (col ! i) \<and> d_deleted (col ! i) = None \<and>
            ping q a opts now col =
              (Inr (d_id (col ! i)),
               col[i := (col ! i)\<lparr>d_visible := now +
                   (case o_visibility opts of None \<Rightarrow> visibility q
                    | Some v \<Rightarrow> if v = 0 then visibility q else v) * 1000\<rparr>]) \<and>
            (0 < (case o_visibility opts of None \<Rightarrow> visibility q
                  | Some v \<Rightarrow> if v = 0 then visibility q else v)
               \<longrightarrow> now < d_visible (snd (ping q a opts now col) ! i))) \<and>
         (\<exists>i<length col.
            d_ack (col ! i) = Some a \<and> now < d_visible (col ! i) \<and> d_deleted (col ! i) = None \<and>
            ack a now col = (Inr (d_id (col ! i)), col[i := (col ! i)\<lparr>d_deleted := Some now\<rparr>]))
    else ping q a opts now col = (Inl (PingUnidentifiedAck a), col) \<and>
         ack a now col = (Inl (AckUnidentifiedAck a), col))"
proof (cases "\<exists>d\<in>set col. leased a now d")
  case False
  then have none: "\<And>u. findOneAndUpdate (leased a now) u col = (None, col)"
    using foau_cases[of col "leased a now"] by (metis nth_mem)
  have "ping q a opts now col = (Inl (PingUnidentifiedAck a), col)"
    by (simp add: ping_def none)
  moreover have "ack a now col = (Inl (AckUnidentifiedAck a), col)"
    by (simp add: ack_def none)
  ultimately show ?thesis using False by (simp add: leased_def)
next
  case True
  let ?vis = "case o_visibility opts of None \<Rightarrow> visibility q
                    | Some v \<Rightarrow> if v = 0 then visibility q else v"
  have some: "\<And>u. \<exists>i<length col. leased a now (col ! i) \<and>
        findOneAndUpdate (leased a now) u col = (Some (u (col ! i)), col[i := u (col ! i)])"
    using foau_cases[of col "leased a now"] True by blast
  from some[of "\<lambda>d. d\<lparr>d_visible := nowPlusSecs now (js_or (o_visibility opts) (visibility q))\<rparr>"]
  obtain i where i: "i < length col" "leased a now (col ! i)"
    "ping q a opts now col =
       (Inr (d_id (col ! i)),
        col[i := (col ! i)\<lparr>d_visible := nowPlusSecs now (js_or (o_visibility opts) (visibility q))\<rparr>])"
    by (auto simp: ping_def)
  have "nowPlusSecs now (js_or (o_visibility opts) (visibility q)) = now + ?vis * 1000"
    by (simp add: nowPlusSecs_def js_or_def)
  with i have p: "\<exists>i<length col.
            d_ack (col ! i) = Some a \<and> now < d_visible (col ! i) \<and> d_deleted (col ! i) = None \<and>
            ping q a opts now col =
              (Inr (d_id (col ! i)), col[i := (col ! i)\<lparr>d_visible := now + ?vis * 1000\<rparr>]) \<and>
            (0 < ?vis \<longrightarrow> now < d_visible (snd (ping q a opts now col) ! i))"
    unfolding leased_def by auto
  from some[of "\<lambda>d. d\<lparr>d_deleted := Some now\<rparr>"]
  obtain j where j: "j < length col" "leased a now (col ! j)"
    "ack a now col = (Inr (d_id (col ! j)), col[j := (col ! j)\<lparr>d_deleted := Some now\<rparr>])"
    by (auto simp: ack_def)
  then have k: "\<exists>i<length col.
            d_ack (col ! i) = Some a \<and> now < d_visible (col ! i) \<and> d_deleted (col ! i) = None \<and>
            ack a now col = (Inr (d_id (col ! i)), col[i := (col ! i)\<lparr>d_deleted := Some now\<rparr>])"
    unfolding leased_def by auto
  from True have "\<exists>d\<in>set col. d_ack d = Some a \<and> now < d_visible d \<and> d_deleted d = None"
    by (simp add: leased_def)
  with p k show ?thesis by simp
qed

text \<open>An instance: a live lease is extended by \<open>ping\<close> and finalized by \<open>ack\<close>.\<close>

theorem ping_ack_match_witness:
  "ping (Queue 30 0 None None) ''t1'' no_opts 2000
     [\<lparr>d_id = 1, d_visible = 31000, d_payload = ''a'', d_tries = Some 1, d_ack = Some ''t1'', d_deleted = None\<rparr>,
      \<lparr>d_id = 2, d_visible = 0, d_payload = ''b'', d_tries = None, d_ack = None, d_deleted = None\<rparr>]
   = (Inr 1,
     [\<lparr>d_id = 1, d_visible = 32000, d_payload = ''a'', d_tries = Some 1, d_ack = Some ''t1'', d_deleted = None\<rparr>,
      \<lparr>d_id = 2, d_visible = 0, d_payload = ''b'', d_tries = None, d_ack = None, d_deleted = None\<rparr>]) \<and>
   ack ''t1'' 2000
     [\<lparr>d_id = 1, d_visible = 31000, d_payload = ''a'', d_tries = Some 1, d_ack = Some ''t1'', d_deleted = None\<rparr>,
      \<lparr>d_id = 2, d_visible = 0, d_payload = ''b'', d_tries = None, d_ack = None, d_deleted = None\<rparr>]
   = (Inr 1,
     [\<lparr>d_id = 1, d_visible = 31000, d_payload = ''a'', d_tries = Some 1, d_ack = Some ''t1'', d_deleted = Some 2000\<rparr>,
      \<lparr>d_id = 2, d_visible = 0, d_payload = ''b'', d_tries = None, d_ack = None, d_deleted = None\<rparr>])"
  using ping_ack_match [of
     "[\<lparr>d_id = 1, d_visible = 31000, d_payload = ''a'', d_tries = Some 1, d_ack = Some ''t1'', d_deleted = None\<rparr>,
      \<lparr>d_id = 2, d_visible = 0, d_payload = ''b'', d_tries = None, d_ack = None, d_deleted = None\<rparr>]"
     "''t1''" 2000 "Queue 30 0 None None" no_opts]
  by (auto simp: less_Suc_eq numeral_2_eq_2 no_opts_def)

text \<open>
  Claim C4 says that \<open>addIfMissing\<close> returns the identifier when it inserts. The source
  returns \<open>result.nUpserted === 1 ? id : null\<close>, and the result of \<open>updateOne\<close> has no
  \<open>nUpserted\<close>: the call that inserts the message returns none as well. The rest of the
  claim holds: the first call stores one message with its payload, the second call returns
  none and leaves the collection as it is.
\<close>

theorem addIfMissing_fresh_returns_none:
  "addIfMissing (Queue 30 0 None None) 7 ''first'' no_opts 1000
     [\<lparr>d_id = 1, d_visible = 0, d_payload = ''a'', d_tries = None, d_ack = None, d_deleted = None\<rparr>]
   = (None,
      [\<lparr>d_id = 1, d_visible = 0, d_payload = ''a'', d_tries = None, d_ack = None, d_deleted = None\<rparr>,
       \<lparr>d_id = 7, d_visible = 1000, d_payload = ''first'', d_tries = None, d_ack = None, d_deleted = None\<rparr>]) \<and>
   addIfMissing (Queue 30 0 None None) 7 ''second'' no_opts 2000
      [\<lparr>d_id = 1, d_visible = 0, d_payload = ''a'', d_tries = None, d_ack = None, d_deleted = None\<rparr>,
       \<lparr>d_id = 7, d_visible = 1000, d_payload = ''first'', d_tries = None, d_ack = None, d_deleted = None\<rparr>]
   = (None,
      [\<lparr>d_id = 1, d_visible = 0, d_payload = ''a'', d_tries = None, d_ack = None, d_deleted = None\<rparr>,
       \<lparr>d_id = 7, d_visible = 1000, d_payload = ''first'', d_tries = None, d_ack = None, d_deleted = None\<rparr>])"
  by (simp add: addIfMissing_def upsert_setOnInsert_def nUpserted_def new_msg_def insert_visible_def
      js_or_def no_opts_def)

text \<open>
  Claim C5. In every reachable collection, a message whose \<open>deleted\<close> is set is left
  exactly as it is by \<open>add\<close>, \<open>addIfMissing\<close>, \<open>get\<close>, \<open>ping\<close>, \<open>ack\<close> and \<open>cancel\<close>,
  whatever their arguments, and \<open>get\<close> never returns it.
\<close>

theorem finalized_untouched:
  assumes "reachable col" and "i < length col" and "d_deleted (col ! i) \<noteq> None"
  shows "snd (add q payload opts now oid col) ! i = col ! i \<and>
         snd (addIfMissing q x p opts now col) ! i = col ! i \<and>
         fst (snd (get q opts env col dead)) ! i = col ! i \<and>
         (\<forall>m. fst (get q opts env col dead) = Inr (Some m) \<longrightarrow> m_id m \<noteq> d_id (col ! i)) \<and>
         snd (ping q a opts now col) ! i = col ! i \<and>
         snd (ack a now col) ! i = col ! i \<and>
         snd (cancel x now col) ! i = col ! i"
proof -
  have 1: "snd (add q payload opts now oid col) ! i = col ! i"
    using add_appends[of q payload opts now oid col, OF prod.collapse[symmetric]] assms(2)
    by (auto simp: nth_append)
  have 2: "snd (addIfMissing q x p opts now col) ! i = col ! i"
    using addIfMissing_appends[of q x p opts now col, OF prod.collapse[symmetric]] assms(2)
    by (auto simp: nth_append)
  have 3: "fst (snd (get q opts env col dead)) ! i = col ! i"
    using frame_get[of col q opts env dead] assms(2,3) by (simp add: frame_def)
  have 4: "\<forall>m. fst (get q opts env col dead) = Inr (Some m) \<longrightarrow> m_id m \<noteq> d_id (col ! i)"
  proof (intro allI impI)
    fix m assume "fst (get q opts env col dead) = Inr (Some m)"
    with get_returned_undeleted[of q opts env col dead m]
    obtain j where j: "j < length col" "d_deleted (col ! j) = None" "d_id (col ! j) = m_id m"
      by blast
    with assms(3) have "j \<noteq> i" by auto
    moreover from assms(2) j(1) have "j < length (map d_id col)" "i < length (map d_id col)"
      by simp_all
    ultimately have "map d_id col ! j \<noteq> map d_id col ! i"
      using reachable_distinct[OF assms(1)] nth_eq_iff_index_eq[of "map d_id col" j i] by blast
    with assms(2) j show "m_id m \<noteq> d_id (col ! i)" by simp
  qed
  have 5: "snd (ping q a opts now col) ! i = col ! i"
    using ping_changes[of q a opts now col, OF prod.collapse[symmetric]] assms(2,3)
    by (auto simp: leased_def)
  have 6: "snd (ack a now col) ! i = col ! i"
    using ack_changes[of a now col, OF prod.collapse[symmetric]] assms(2,3)
    by (auto simp: leased_def)
  have 7: "snd (cancel x now col) ! i = col ! i"
    using cancel_changes[of x now col, OF prod.collapse[symmetric]] assms(2,3)
    by (auto simp: claimable_def)
  from 1 2 3 4 5 6 7 show ?thesis by blast
qed

text \<open>An instance: a message added and then cancelled is reachable and stays as it is.\<close>

theorem finalized_untouched_witness:
  "reachable [\<lparr>d_id = 0, d_visible = 0, d_payload = ''a'', d_tries = None, d_ack = None, d_deleted = Some 5\<rparr>] \<and>
   (0::nat) < length [\<lparr>d_id = 0, d_visible = 0, d_payload = ''a'', d_tries = None, d_ack = None, d_deleted = Some 5\<rparr>] \<and>
   d_deleted ([\<lparr>d_id = 0::nat, d_visible = 0, d_payload = ''a'', d_tries = None, d_ack = None, d_deleted = Some 5\<rparr>] ! 0) \<noteq> None \<and>
   fst (snd (get (Queue 30 0 None None) no_opts
          (\<lambda>k. \<lparr>at_get = 1000, new_ack = ''t1'', at_dead = 1000, dead_oid = 0, at_ack = 1000\<rparr>)
          [\<lparr>d_id = 0, d_visible = 0, d_payload = ''a'', d_tries = None, d_ack = None, d_deleted = Some 5\<rparr>]
          ([] :: string msg doc list))) ! 0
     = \<lparr>d_id = 0, d_visible = 0, d_payload = ''a'', d_tries = None, d_ack = None, d_deleted = Some 5\<rparr> \<and>
   snd (cancel 0 1000
          [\<lparr>d_id = 0, d_visible = 0, d_payload = ''a'', d_tries = None, d_ack = None, d_deleted = Some 5\<rparr>]) ! 0
     = \<lparr>d_id = 0, d_visible = 0, d_payload = ''a'', d_tries = None, d_ack = None, d_deleted = Some 5\<rparr>"
proof -
  let ?col = "[\<lparr>d_id = 0::nat, d_visible = 0::int, d_payload = ''a'', d_tries = None, d_ack = None, d_deleted = Some (5::int)\<rparr>]"
  have "snd (cancel 0 5 (snd (add (Queue 30 0 None None) (One ''a'') no_opts 0 id []))) = ?col"
    by (simp add: cancel_def add_def new_msg_def insert_visible_def js_or_def no_opts_def claimable_def)
  moreover have "reachable (snd (cancel 0 5 (snd (add (Queue 30 0 None None) (One ''a'') no_opts 0 id ([] :: string doc list)))))"
    by (intro r_cancel r_add r_empty)
  ultimately have r: "reachable ?col" by simp
  have i: "(0::nat) < length ?col" by simp
  have d: "d_deleted (?col ! 0) \<noteq> None" by simp
  from finalized_untouched[OF r i d, of "Queue 30 0 None None" "One ''b''" no_opts 1000 id 0 "''c''"
      "\<lambda>k. \<lparr>at_get = 1000, new_ack = ''t1'', at_dead = 1000, dead_oid = 0, at_ack = 1000\<rparr>"
      "[] :: string msg doc list" "''t1''"]
  show ?thesis using r by simp
qed

text \<open>
  Claim C6. At any instant \<open>size + inFlight + done \<le> total\<close>: the three queries select
  disjoint sets of messages. After \<open>add\<close> of one payload with no delay into an empty
  collection, \<open>size = 1\<close>, \<open>inFlight = 0\<close> and \<open>done = 0\<close>, at the instant of the insertion
  and at any later one.
\<close>

theorem counts_partition:
  "sizeQ t col + inFlight t col + doneQ col \<le> totalQ col \<and>
   (delay q = 0 \<and> (o_delay opts = None \<or> o_delay opts = Some 0) \<and> now \<le> now'
      \<longrightarrow> sizeQ now' (snd (add q (One p) opts now oid [])) = 1 \<and>
          inFlight now' (snd (add q (One p) opts now oid [])) = 0 \<and>
          doneQ (snd (add q (One p) opts now oid [])) = 0)"
proof
  show "sizeQ t col + inFlight t col + doneQ col \<le> totalQ col"
    unfolding sizeQ_def inFlight_def doneQ_def totalQ_def
    by (rule count_docs_disjoint3) (auto simp: claimable_def)
next
  show "delay q = 0 \<and> (o_delay opts = None \<or> o_delay opts = Some 0) \<and> now \<le> now'
      \<longrightarrow> sizeQ now' (snd (add q (One p) opts now oid [])) = 1 \<and>
          inFlight now' (snd (add q (One p) opts now oid [])) = 0 \<and>
          doneQ (snd (add q (One p) opts now oid [])) = 0"
  proof
    assume h: "delay q = 0 \<and> (o_delay opts = None \<or> o_delay opts = Some 0) \<and> now \<le> now'"
    then have "insert_visible q opts now = now"
      by (auto simp: insert_visible_def js_or_def)
    then have "snd (add q (One p) opts now oid []) = [new_msg (oid 0) now p]"
      by (simp add: add_One_empty)
    with h show "sizeQ now' (snd (add q (One p) opts now oid [])) = 1 \<and>
          inFlight now' (snd (add q (One p) opts now oid [])) = 0 \<and>
          doneQ (snd (add q (One p) opts now oid [])) = 0"
      by (simp add: sizeQ_def inFlight_def doneQ_def count_docs_def claimable_def new_msg_def)
  qed
qed

text \<open>An instance: one message added at time 1000 to the empty collection.\<close>

theorem counts_partition_witness:
  "(delay (Queue 30 0 None None) = 0 \<and> (o_delay no_opts = None \<or> o_delay no_opts = Some 0) \<and>
      (1000::int) \<le> 1000) \<and>
   snd (add (Queue 30 0 None None) (One ''a'') no_opts 1000 (\<lambda>k. 5 + k) []) =
      [\<lparr>d_id = 5, d_visible = 1000, d_payload = ''a'', d_tries = None, d_ack = None, d_deleted = None\<rparr>] \<and>
   sizeQ 1000 (snd (add (Queue 30 0 None None) (One ''a'') no_opts 1000 (\<lambda>k. 5 + k) [])) = 1 \<and>
   inFlight 1000 (snd (add (Queue 30 0 None None) (One ''a'') no_opts 1000 (\<lambda>k. 5 + k) [])) = 0 \<and>
   doneQ (snd (add (Queue 30 0 None None) (One ''a'') no_opts 1000 (\<lambda>k. 5 + k) [])) = 0"
  using counts_partition [of 0 "[] :: string doc list" "Queue 30 0 None None" no_opts 1000 1000 "''a''" "\<lambda>k. 5 + k"]
  by (simp add: no_opts_def add_def new_msg_def insert_visible_def js_or_def)









text \<open>
  Claim C10. After a redirection to the dead-letter queue, \<open>get\<close> goes on as \<open>get\<close> without
  options. So when \<open>get\<close> returns a message after at least one redirection (the
  dead-letter collection has changed), that message was claimed at a later attempt with
  the visibility the queue is configured with, whatever visibility the caller asked for.
\<close>

theorem redirected_get_drops_options:
  "(\<forall>d col1 dq r dead1 i col2.
       first_claim q opts (env 0) col = (Some d, col1) \<and> deadQueue q = Some dq \<and>
       exceeds (m_tries (external d)) (maxRetries q) \<and>
       add dq (One (external d)) no_opts (at_dead (env 0)) (\<lambda>k. dead_oid (env 0)) dead = (Inr r, dead1) \<and>
       ack (m_ack (external d)) (at_ack (env 0)) col1 = (Inr i, col2)
       \<longrightarrow> get q opts env col dead = get q no_opts (\<lambda>k. env (Suc k)) col2 dead1) \<and>
   (\<forall>m. fst (get q opts env col dead) = Inr (Some m) \<and> snd (snd (get q opts env col dead)) \<noteq> dead
       \<longrightarrow> (\<exists>k>0. \<exists>i<length (fst (snd (get q opts env col dead))).
              d_id (fst (snd (get q opts env col dead)) ! i) = m_id m \<and>
              d_ack (fst (snd (get q opts env col dead)) ! i) = Some (m_ack m) \<and>
              d_visible (fst (snd (get q opts env col dead)) ! i) =
                at_get (env k) + visibility q * 1000))"
proof (intro conjI allI impI)
  fix d col1 dq r dead1 i col2
  assume "first_claim q opts (env 0) col = (Some d, col1) \<and> deadQueue q = Some dq \<and>
       exceeds (m_tries (external d)) (maxRetries q) \<and>
       add dq (One (external d)) no_opts (at_dead (env 0)) (\<lambda>k. dead_oid (env 0)) dead = (Inr r, dead1) \<and>
       ack (m_ack (external d)) (at_ack (env 0)) col1 = (Inr i, col2)"
  then show "get q opts env col dead = get q no_opts (\<lambda>k. env (Suc k)) col2 dead1"
    using get_redirect[where env=env and dead=dead and q=q and opts=opts and col=col and d=d
        and ?col1.0=col1 and dq=dq]
    by simp
next
  fix m
  let ?res = "get q opts env col dead"
  assume h: "fst ?res = Inr (Some m) \<and> snd (snd ?res) \<noteq> dead"
  with get_returned_lease[of q opts env col dead m] obtain k i where ki:
    "i < length (fst (snd ?res))" "d_id (fst (snd ?res) ! i) = m_id m"
    "d_ack (fst (snd ?res) ! i) = Some (m_ack m)"
    "d_visible (fst (snd ?res) ! i) =
          nowPlusSecs (at_get (env k))
            (if k = 0 then js_or (o_visibility opts) (visibility q) else visibility q)"
    "k = 0 \<longrightarrow> snd (snd ?res) = dead" by blast
  from h ki(5) have "0 < k" by auto
  with ki(4) have "d_visible (fst (snd ?res) ! i) = at_get (env k) + visibility q * 1000"
    by (simp add: nowPlusSecs_def)
  with ki(1,2,3) \<open>0 < k\<close>
  show "\<exists>k>0. \<exists>i<length (fst (snd ?res)).
              d_id (fst (snd ?res) ! i) = m_id m \<and> d_ack (fst (snd ?res) ! i) = Some (m_ack m) \<and>
              d_visible (fst (snd ?res) ! i) = at_get (env k) + visibility q * 1000"
    by blast
qed

text \<open>
  An instance: the caller asks for a visibility of 100 seconds; the first message is
  redirected, and the message returned is hidden for the 30 seconds of the queue.
\<close>

theorem redirected_get_drops_options_witness:
  "get (Queue 30 0 (Some (Queue 30 0 None None)) (Some 2)) \<lparr>o_delay = None, o_visibility = Some 100\<rparr>
       (\<lambda>k. \<lparr>at_get = 1000 + 10 * int k, new_ack = (if k = 0 then ''t3'' else ''t4''),
              at_dead = 1001 + 10 * int k, dead_oid = 7, at_ack = 1002 + 10 * int k\<rparr>)
       [\<lparr>d_id = 1, d_visible = 500, d_payload = ''a'', d_tries = Some 2, d_ack = Some ''t2'', d_deleted = None\<rparr>,
        \<lparr>d_id = 2, d_visible = 0, d_payload = ''b'', d_tries = None, d_ack = None, d_deleted = None\<rparr>]
       []
   = (Inr (Some \<lparr>m_id = 2, m_ack = ''t4'', m_payload = ''b'', m_tries = 1\<rparr>),
      [\<lparr>d_id = 1, d_visible = 101000, d_payload = ''a'', d_tries = Some 3, d_ack = Some ''t3'',
        d_deleted = Some 1002\<rparr>,
       \<lparr>d_id = 2, d_visible = 31010, d_payload = ''b'', d_tries = Some 1, d_ack = Some ''t4'',
        d_deleted = None\<rparr>],
      [\<lparr>d_id = 7, d_visible = 1001,
        d_payload = \<lparr>m_id = 1, m_ack = ''t3'', m_payload = ''a'', m_tries = 3\<rparr>,
        d_tries = None, d_ack = None, d_deleted = None\<rparr>])"
proof -
  let ?dq = "Queue 30 0 None None"
  let ?q = "Queue 30 0 (Some ?dq) (Some 2)"
  let ?opts = "\<lparr>o_delay = None, o_visibility = Some 100\<rparr>"
  let ?env = "\<lambda>k. \<lparr>at_get = 1000 + 10 * int k, new_ack = (if k = 0 then ''t3'' else ''t4''),
              at_dead = 1001 + 10 * int k, dead_oid = 7, at_ack = 1002 + 10 * int k\<rparr>"
  let ?b = "\<lparr>d_id = 2::nat, d_visible = 0::int, d_payload = ''b'', d_tries = None, d_ack = None,
             d_deleted = None\<rparr>"
  let ?col = "[\<lparr>d_id = 1::nat, d_visible = 500::int, d_payload = ''a'', d_tries = Some 2,
                d_ack = Some ''t2'', d_deleted = None\<rparr>, ?b]"
  let ?d = "\<lparr>d_id = 1::nat, d_visible = 101000::int, d_payload = ''a'', d_tries = Some 3,
             d_ack = Some ''t3'', d_deleted = None\<rparr>"
  let ?col2 = "[?d\<lparr>d_deleted := Some 1002\<rparr>, ?b]"
  let ?b' = "\<lparr>d_id = 2::nat, d_visible = 31010::int, d_payload = ''b'', d_tries = Some 1,
              d_ack = Some ''t4'', d_deleted = None\<rparr>"
  let ?dead1 = "[\<lparr>d_id = 7::nat, d_visible = 1001::int,
        d_payload = \<lparr>m_id = 1, m_ack = ''t3'', m_payload = ''a'', m_tries = 3\<rparr>,
        d_tries = None, d_ack = None, d_deleted = None\<rparr>]"
  have fc: "first_claim ?q ?opts (?env 0) ?col = (Some ?d, [?d, ?b])"
    by (simp add: findOneAndUpdate_sorted_def least_id_def claimable_def claim_update_def
        nowPlusSecs_def js_or_def tries_of_def)
  have ext: "external ?d = \<lparr>m_id = 1, m_ack = ''t3'', m_payload = ''a'', m_tries = 3\<rparr>"
    by (simp add: external_def tries_of_def)
  have a: "add ?dq (One (external ?d)) no_opts (at_dead (?env 0)) (\<lambda>k. dead_oid (?env 0)) []
             = (Inr (InsertedId 7), ?dead1)"
    unfolding ext by (simp add: add_def new_msg_def insert_visible_def js_or_def no_opts_def)
  have k: "ack (m_ack (external ?d)) (at_ack (?env 0)) [?d, ?b] = (Inr 1, ?col2)"
    unfolding ext by (simp add: ack_def leased_def)
  have ex: "exceeds (m_tries (external ?d)) (maxRetries ?q)"
    unfolding ext by (simp add: exceeds_def)
  from redirected_get_drops_options[where q="?q" and opts="?opts" and env="?env" and col="?col"
      and dead="[]"] fc a k ex
  have "get ?q ?opts ?env ?col [] = get ?q no_opts (\<lambda>k. ?env (Suc k)) ?col2 ?dead1"
    by (elim conjE allE[where x="?d"] allE[where x="[?d, ?b]"] allE[where x="?dq"]
        allE[where x="InsertedId 7"] allE[where x="?dead1"] allE[where x="1::nat"]
        allE[where x="?col2"]) simp
  moreover have fc2: "first_claim ?q no_opts ((\<lambda>k. ?env (Suc k)) 0) ?col2 = (Some ?b', [?d\<lparr>d_deleted := Some 1002\<rparr>, ?b'])"
    by (simp add: findOneAndUpdate_sorted_def least_id_def claimable_def claim_update_def
        nowPlusSecs_def js_or_def tries_of_def no_opts_def)
  have "get ?q no_opts (\<lambda>k. ?env (Suc k)) ?col2 ?dead1 =
          (Inr (Some (external ?b')), [?d\<lparr>d_deleted := Some 1002\<rparr>, ?b'], ?dead1)"
    by (rule get_direct[where env="\<lambda>k. ?env (Suc k)", OF fc2])
       (simp add: external_def tries_of_def exceeds_def)
  ultimately show ?thesis by (simp add: external_def tries_of_def)
qed

end
